theory Spec2Isabelle
  imports Complex_Main
begin

section \<open>JavaScript numbers\<close>

text \<open>
  A JavaScript \<open>number\<close> is a finite value, one of the two infinities, or NaN. The finite
  values are kept exact: \<open>rat jsnum\<close> for measured widths and quotients, \<open>int jsnum\<close> for
  page indices, page counts, word counts and everything that \<open>Math.ceil\<close> or
  \<open>Math.floor\<close> returns. Rounding of finite results and the sign of zero are not
  modelled; a zero divisor is taken as \<open>+0\<close>.
\<close>

datatype 'a jsnum = Num 'a | PosInf | NegInf | NaN

type_synonym jsint = "int jsnum"
type_synonym jsreal = "rat jsnum"

text \<open>An integral number read as a number that may carry a fraction.\<close>

fun as_real :: "jsint \<Rightarrow> jsreal" where
  "as_real (Num n) = Num (of_int n)"
| "as_real PosInf = PosInf"
| "as_real NegInf = NegInf"
| "as_real NaN = NaN"

text \<open>\<open>a < b\<close>, \<open>a <= b\<close>, \<open>a >= b\<close>: false as soon as one side is NaN.\<close>

fun js_lt :: "('a::linorder) jsnum \<Rightarrow> 'a jsnum \<Rightarrow> bool" where
  "js_lt NaN _ = False"
| "js_lt _ NaN = False"
| "js_lt (Num a) (Num b) = (a < b)"
| "js_lt (Num a) PosInf = True"
| "js_lt (Num a) NegInf = False"
| "js_lt PosInf _ = False"
| "js_lt NegInf NegInf = False"
| "js_lt NegInf _ = True"

fun js_le :: "('a::linorder) jsnum \<Rightarrow> 'a jsnum \<Rightarrow> bool" where
  "js_le NaN _ = False"
| "js_le _ NaN = False"
| "js_le (Num a) (Num b) = (a \<le> b)"
| "js_le (Num a) PosInf = True"
| "js_le (Num a) NegInf = False"
| "js_le PosInf PosInf = True"
| "js_le PosInf _ = False"
| "js_le NegInf _ = True"

definition js_ge :: "('a::linorder) jsnum \<Rightarrow> 'a jsnum \<Rightarrow> bool" where
  "js_ge a b = js_le b a"

definition js_gt :: "('a::linorder) jsnum \<Rightarrow> 'a jsnum \<Rightarrow> bool" where
  "js_gt a b = js_lt b a"

text \<open>\<open>a !== b\<close> and \<open>a === b\<close> on numbers: NaN differs from everything, itself included.\<close>

definition js_strict_eq :: "'a jsnum \<Rightarrow> 'a jsnum \<Rightarrow> bool" where
  "js_strict_eq a b = (a \<noteq> NaN \<and> b \<noteq> NaN \<and> a = b)"

definition js_strict_neq :: "'a jsnum \<Rightarrow> 'a jsnum \<Rightarrow> bool" where
  "js_strict_neq a b = (\<not> js_strict_eq a b)"

fun js_add :: "('a::plus) jsnum \<Rightarrow> 'a jsnum \<Rightarrow> 'a jsnum" where
  "js_add NaN _ = NaN"
| "js_add _ NaN = NaN"
| "js_add (Num a) (Num b) = Num (a + b)"
| "js_add (Num a) PosInf = PosInf"
| "js_add (Num a) NegInf = NegInf"
| "js_add PosInf NegInf = NaN"
| "js_add PosInf _ = PosInf"
| "js_add NegInf PosInf = NaN"
| "js_add NegInf _ = NegInf"

fun js_sub :: "('a::minus) jsnum \<Rightarrow> 'a jsnum \<Rightarrow> 'a jsnum" where
  "js_sub NaN _ = NaN"
| "js_sub _ NaN = NaN"
| "js_sub (Num a) (Num b) = Num (a - b)"
| "js_sub (Num a) PosInf = NegInf"
| "js_sub (Num a) NegInf = PosInf"
| "js_sub PosInf PosInf = NaN"
| "js_sub PosInf _ = PosInf"
| "js_sub NegInf NegInf = NaN"
| "js_sub NegInf _ = NegInf"

text \<open>The infinity that has the sign of a non-zero finite value.\<close>

definition signed_inf :: "bool \<Rightarrow> 'a jsnum" where
  "signed_inf positive = (if positive then PosInf else NegInf)"

fun js_mul :: "jsreal \<Rightarrow> jsreal \<Rightarrow> jsreal" where
  "js_mul NaN _ = NaN"
| "js_mul _ NaN = NaN"
| "js_mul (Num a) (Num b) = Num (a * b)"
| "js_mul (Num a) PosInf = (if a = 0 then NaN else signed_inf (0 < a))"
| "js_mul (Num a) NegInf = (if a = 0 then NaN else signed_inf (a < 0))"
| "js_mul PosInf (Num b) = (if b = 0 then NaN else signed_inf (0 < b))"
| "js_mul NegInf (Num b) = (if b = 0 then NaN else signed_inf (b < 0))"
| "js_mul PosInf PosInf = PosInf"
| "js_mul PosInf NegInf = NegInf"
| "js_mul NegInf PosInf = NegInf"
| "js_mul NegInf NegInf = PosInf"

fun js_div :: "jsreal \<Rightarrow> jsreal \<Rightarrow> jsreal" where
  "js_div NaN _ = NaN"
| "js_div _ NaN = NaN"
| "js_div (Num a) (Num b) =
     (if b = 0 then (if a = 0 then NaN else signed_inf (0 < a)) else Num (a / b))"
| "js_div (Num a) PosInf = Num 0"
| "js_div (Num a) NegInf = Num 0"
| "js_div PosInf (Num b) = signed_inf (0 \<le> b)"
| "js_div NegInf (Num b) = signed_inf (b < 0)"
| "js_div PosInf _ = NaN"
| "js_div NegInf _ = NaN"

text \<open>\<open>a % b\<close> on integral numbers: the remainder has the sign of the dividend.\<close>

fun js_rem :: "jsint \<Rightarrow> jsint \<Rightarrow> jsint" where
  "js_rem NaN _ = NaN"
| "js_rem _ NaN = NaN"
| "js_rem PosInf _ = NaN"
| "js_rem NegInf _ = NaN"
| "js_rem (Num a) (Num b) = (if b = 0 then NaN else Num (sgn a * (\<bar>a\<bar> mod \<bar>b\<bar>)))"
| "js_rem (Num a) _ = Num a"

fun js_ceil :: "jsreal \<Rightarrow> jsint" where
  "js_ceil (Num r) = Num \<lceil>r\<rceil>"
| "js_ceil PosInf = PosInf"
| "js_ceil NegInf = NegInf"
| "js_ceil NaN = NaN"

fun js_floor :: "jsreal \<Rightarrow> jsint" where
  "js_floor (Num r) = Num \<lfloor>r\<rfloor>"
| "js_floor PosInf = PosInf"
| "js_floor NegInf = NegInf"
| "js_floor NaN = NaN"

text \<open>\<open>Math.max(a, b)\<close>: NaN as soon as one argument is NaN.\<close>

fun js_max :: "('a::linorder) jsnum \<Rightarrow> 'a jsnum \<Rightarrow> 'a jsnum" where
  "js_max NaN _ = NaN"
| "js_max _ NaN = NaN"
| "js_max (Num a) (Num b) = Num (max a b)"
| "js_max PosInf _ = PosInf"
| "js_max _ PosInf = PosInf"
| "js_max NegInf b = b"
| "js_max a NegInf = a"

section \<open>Pagination engine (PagedReader.tsx)\<close>

text \<open>
  \<open>layoutDims\<close> is the content rectangle last reported by the resize observer, or unset.
  \<open>scrollWidth\<close> is the DOM's integer measure of the rendered content.
\<close>

record layout_dims =
  width :: rat
  height :: rat

text \<open>
  The update of \<open>layoutDims\<close> for a rectangle the resize observer reports (lines 49 to
  56): the first rectangle is stored whatever its size, a later one when its width or its
  height differs by more than 1 from the stored one.
\<close>

definition resizeObserved :: "layout_dims option \<Rightarrow> layout_dims \<Rightarrow> layout_dims option" where
  "resizeObserved prev contentRect =
     (case prev of
        None \<Rightarrow> Some \<lparr>width = width contentRect, height = height contentRect\<rparr>
      | Some dims \<Rightarrow>
          if \<bar>width dims - width contentRect\<bar> > 1 \<or> \<bar>height dims - height contentRect\<bar> > 1
          then Some \<lparr>width = width contentRect, height = height contentRect\<rparr>
          else Some dims)"

text \<open>
  \<open>Math.max(1, Math.ceil(scrollWidth / layoutDims.width))\<close>, lines 85 and 86 of
  \<open>calculatePages\<close>.
\<close>

definition pageCount :: "int \<Rightarrow> layout_dims \<Rightarrow> jsint" where
  "pageCount scrollWidth dims =
     js_max (Num 1) (js_ceil (js_div (Num (of_int scrollWidth)) (Num (width dims))))"

text \<open>
  The calls \<open>PagedReader\<close> makes on its parent: \<open>onPageChange(i)\<close>,
  \<open>onTotalPagesChange(n)\<close>, \<open>onNextChapter()\<close> and \<open>onPrevChapter()\<close>.
\<close>

datatype callback =
    OnPageChange jsint
  | OnTotalPagesChange jsint
  | OnNextChapter
  | OnPrevChapter

fun isPageChange :: "callback \<Rightarrow> bool" where
  "isPageChange (OnPageChange _) = True"
| "isPageChange _ = False"

definition pageChanges :: "callback list \<Rightarrow> callback list" where
  "pageChanges cs = filter isPageChange cs"

text \<open>
  One pass of \<open>calculatePages\<close> (lines 70 to 102). \<open>currentPageIndex\<close> and
  \<open>onTotalPagesChange\<close> (here: whether the optional observer was given) are the values
  captured by the effect's closure, \<open>dims\<close> the captured \<open>layoutDims\<close>. \<open>measured\<close> is
  \<open>None\<close> when \<open>contentRef.current\<close> is null at the time of the pass, and the content's
  \<open>scrollWidth\<close> otherwise. \<open>totalPages\<close> is the state before the pass. The result is
  the state after the pass and the callbacks the pass makes. Scheduling a further pass
  for pending images (lines 77 to 83) is part of \<open>pageEffect\<close> below.
\<close>

definition calculatePages ::
  "jsint \<Rightarrow> bool \<Rightarrow> layout_dims \<Rightarrow> int option \<Rightarrow> jsint \<Rightarrow> jsint \<times> callback list" where
  "calculatePages currentPageIndex onTotalPagesChange dims measured totalPages =
     (case measured of
        None \<Rightarrow> (totalPages, [])
      | Some scrollWidth \<Rightarrow>
          (let pages = pageCount scrollWidth dims;
               changed = js_strict_neq totalPages pages;
               notifyTotal = (if changed \<and> onTotalPagesChange then [OnTotalPagesChange pages] else []);
               repair = (if js_ge currentPageIndex pages
                         then [OnPageChange (js_sub pages (Num 1))] else [])
           in (if changed then pages else totalPages, notifyTotal @ repair)))"

text \<open>
  The passes of one run of the effect, in the order they fire. Every pass is the same
  closure, so every pass sees the \<open>currentPageIndex\<close> and \<open>layoutDims\<close> of the render
  that started the effect: \<open>currentPageIndex\<close> is not among the effect's dependencies
  (line 113), and a page change reported by one pass does not start the effect again.
\<close>

fun runPasses ::
  "jsint \<Rightarrow> bool \<Rightarrow> layout_dims \<Rightarrow> int option list \<Rightarrow> jsint \<Rightarrow> jsint \<times> callback list" where
  "runPasses currentPageIndex onTotalPagesChange dims [] totalPages = (totalPages, [])"
| "runPasses currentPageIndex onTotalPagesChange dims (m # ms) totalPages =
     (let (total1, calls1) = calculatePages currentPageIndex onTotalPagesChange dims m totalPages;
          (total2, calls2) = runPasses currentPageIndex onTotalPagesChange dims ms total1
      in (total2, calls1 @ calls2))"

text \<open>
  The effect of lines 65 to 113. It does nothing while \<open>layoutDims\<close> is unset or the
  content element is missing (\<open>measuredNow = None\<close>). Otherwise it runs
  \<open>calculatePages\<close> at once, and once more for each scheduled pass that fires before the
  effect is cleaned up: the timers of 100 ms and 500 ms and the passes started when
  pending images have loaded. \<open>measuredLater\<close> lists what those passes measure.
\<close>

definition pageEffect ::
  "jsint \<Rightarrow> bool \<Rightarrow> layout_dims option \<Rightarrow> int option \<Rightarrow> int option list \<Rightarrow> jsint
     \<Rightarrow> jsint \<times> callback list" where
  "pageEffect currentPageIndex onTotalPagesChange layoutDims measuredNow measuredLater totalPages =
     (case layoutDims of
        None \<Rightarrow> (totalPages, [])
      | Some dims \<Rightarrow>
          (case measuredNow of
             None \<Rightarrow> (totalPages, [])
           | Some scrollWidth \<Rightarrow>
               runPasses currentPageIndex onTotalPagesChange dims
                 (Some scrollWidth # measuredLater) totalPages))"

text \<open>
  What a pass reports as page change, for one measurement: the clamped index when the
  captured index is not below the page count, nothing otherwise.
\<close>

definition repairOf :: "jsint \<Rightarrow> layout_dims \<Rightarrow> int option \<Rightarrow> callback list" where
  "repairOf currentPageIndex dims measured =
     (case measured of
        None \<Rightarrow> []
      | Some scrollWidth \<Rightarrow>
          (if js_ge currentPageIndex (pageCount scrollWidth dims)
           then [OnPageChange (js_sub (pageCount scrollWidth dims) (Num 1))] else []))"

subsection \<open>Navigation (lines 143 to 157)\<close>

definition goToPrevPage :: "jsint \<Rightarrow> bool \<Rightarrow> callback list" where
  "goToPrevPage currentPageIndex onPrevChapter =
     (if js_gt currentPageIndex (Num 0) then [OnPageChange (js_sub currentPageIndex (Num 1))]
      else if onPrevChapter then [OnPrevChapter]
      else [])"

definition goToNextPage :: "jsint \<Rightarrow> jsint \<Rightarrow> bool \<Rightarrow> callback list" where
  "goToNextPage currentPageIndex totalPages onNextChapter =
     (if js_lt currentPageIndex (js_sub totalPages (Num 1))
      then [OnPageChange (js_add currentPageIndex (Num 1))]
      else if onNextChapter then [OnNextChapter]
      else [])"

section \<open>Reading footer (ReadingFooter.tsx)\<close>

definition AVERAGE_WPM :: jsreal where
  "AVERAGE_WPM = Num 238"

text \<open>
  \<open>String(n)\<close> for an integral number, as the template literals of \<open>formatTime\<close>
  print it (decimal digits; the exponent form of integers from \<open>10^21\<close> on is not
  modelled).
\<close>

fun digits :: "nat \<Rightarrow> string" where
  "digits n = (if n < 10 then [''0123456789'' ! n]
               else digits (n div 10) @ [''0123456789'' ! (n mod 10)])"

declare digits.simps [simp del]

fun js_toString :: "jsint \<Rightarrow> string" where
  "js_toString (Num n) = (if n < 0 then ''-'' @ digits (nat (- n)) else digits (nat n))"
| "js_toString PosInf = ''Infinity''"
| "js_toString NegInf = ''-Infinity''"
| "js_toString NaN = ''NaN''"

text \<open>Lines 25 to 29.\<close>

definition remainingMinutes :: "jsint \<Rightarrow> jsint \<Rightarrow> jsint \<Rightarrow> jsint" where
  "remainingMinutes currentPage totalPages totalWords =
     (let wordsPerPage = js_div (as_real totalWords) (as_real totalPages);
          remainingPages = js_sub totalPages currentPage;
          remainingWords = js_mul (as_real remainingPages) wordsPerPage
      in js_ceil (js_div remainingWords AVERAGE_WPM))"

text \<open>Lines 32 to 39.\<close>

definition formatTime :: "jsint \<Rightarrow> string" where
  "formatTime minutes =
     (if js_le minutes (Num 0) then ''Almost done''
      else if js_lt minutes (Num 60) then ''~'' @ js_toString minutes @ '' min left''
      else
        (let hours = js_floor (js_div (as_real minutes) (Num 60));
             mins = js_rem minutes (Num 60)
         in if js_strict_eq mins (Num 0) then ''~'' @ js_toString hours @ ''h left''
            else ''~'' @ js_toString hours @ ''h '' @ js_toString mins @ ''m left''))"

text \<open>The remaining-time text the footer shows (line 64).\<close>

definition ReadingFooter :: "jsint \<Rightarrow> jsint \<Rightarrow> jsint \<Rightarrow> string" where
  "ReadingFooter currentPage totalPages totalWords =
     formatTime (remainingMinutes currentPage totalPages totalWords)"

section \<open>Book store (useBookStore)\<close>

text \<open>
  The types \<open>Highlight\<close>, \<open>ReadingProgress\<close> and \<open>Book\<close> are declared in
  \<open>types.ts\<close>; their fields are taken from the places that build and read them
  (\<open>handleAddHighlight\<close>, \<open>saveReadingProgress\<close>, \<open>setBook\<close>, \<open>Reader\<close>). A book is
  an extensible record, so that every statement about a book holds for whatever further
  fields the type has.
\<close>

record highlight =
  highlight_id :: string
  highlight_chapterId :: string
  highlight_text :: string
  highlight_note :: string
  highlight_color :: string
  highlight_created :: int

record book_chapter =
  chapter_id :: string
  chapter_title :: string
  chapter_order :: int
  chapter_content :: string

record reading_progress =
  chapterId :: string
  pageIndex :: jsint
  lastRead :: int

record book =
  title :: string
  chapters :: "book_chapter list"
  highlights :: "highlight list option"
  book_notes :: "string option"
  readingProgress :: "reading_progress option"

record 'a book_state =
  book :: "'a book_scheme option"
  currentChapterId :: string
  currentPageIndex :: jsint

text \<open>
  \<open>saveReadingProgress\<close> (lines 391 to 404 of the listing). \<open>now\<close> is what
  \<open>Date.now()\<close> returns, \<open>saveBook\<close> tells whether the write of the persistence
  collaborator succeeds (its promise resolves) for the book it is given. The result is the
  list of books handed to \<open>saveBook\<close> and the state of the store afterwards: when the
  write fails the rejection leaves the function before \<open>set\<close>. No other update of the
  store is taken to happen while the write is awaited.
\<close>

definition saveReadingProgress ::
  "int \<Rightarrow> ('a book_scheme \<Rightarrow> bool) \<Rightarrow> 'a book_state \<Rightarrow> 'a book_scheme list \<times> 'a book_state" where
  "saveReadingProgress now saveBook st =
     (case book st of
        None \<Rightarrow> ([], st)
      | Some b \<Rightarrow>
          (let progress = \<lparr>chapterId = currentChapterId st,
                           pageIndex = currentPageIndex st,
                           lastRead = now\<rparr>;
               updatedBook = b\<lparr>readingProgress := Some progress\<rparr>
           in if saveBook updatedBook
              then ([updatedBook], st\<lparr>book := Some updatedBook\<rparr>)
              else ([updatedBook], st)))"

section \<open>Highlight and search matcher (HighlightText in PagedReader.tsx)\<close>

subsection \<open>Strings\<close>

text \<open>
  A JavaScript string is the list of its UTF-16 code units. The model covers the code
  units below 256 (Basic Latin and Latin-1), written as Isabelle characters;
  \<open>text.length\<close> is \<open>length\<close>.

  \<open>isWhiteSpace\<close> is the class \<open>\s\<close> of a regular expression, which is also what
  \<open>trim\<close> strips: tab, line feed, vertical tab, form feed, carriage return, space and
  no-break space.
\<close>

definition isWhiteSpace :: "char \<Rightarrow> bool" where
  "isWhiteSpace c =
     (c \<in> set [CHR 0x09, CHR 0x0A, CHR 0x0B, CHR 0x0C, CHR 0x0D, CHR 0x20, CHR 0xA0])"

definition trim :: "string \<Rightarrow> string" where
  "trim s = rev (dropWhile isWhiteSpace (rev (dropWhile isWhiteSpace s)))"

text \<open>\<open>s.replace(/\s+/g, ' ')\<close>: every maximal run of white space becomes one space.\<close>

function collapseWhiteSpace :: "string \<Rightarrow> string" where
  "collapseWhiteSpace [] = []"
| "collapseWhiteSpace (c # cs) =
     (if isWhiteSpace c then CHR '' '' # collapseWhiteSpace (dropWhile isWhiteSpace cs)
      else c # collapseWhiteSpace cs)"
  by pat_completeness auto
termination
  by (relation "measure length") (auto simp: less_Suc_eq_le length_dropWhile_le)

text \<open>\<open>s.split(' ')\<close>: the pieces between single spaces, empty pieces included.\<close>

fun split :: "string \<Rightarrow> string list" where
  "split [] = [] # []"
| "split (c # cs) =
     (if c = CHR '' '' then [] # split cs
      else (case split cs of [] \<Rightarrow> [c] # [] | w # ws \<Rightarrow> (c # w) # ws))"

text \<open>\<open>ws.join(sep)\<close>.\<close>

fun join :: "string \<Rightarrow> string list \<Rightarrow> string" where
  "join sep [] = []"
| "join sep [w] = w"
| "join sep (w # v # ws) = w @ sep @ join sep (v # ws)"

text \<open>\<open>text.slice(a, b)\<close> and \<open>text.slice(a)\<close> for offsets that are not negative.\<close>

definition slice :: "string \<Rightarrow> nat \<Rightarrow> nat \<Rightarrow> string" where
  "slice text a b = take (b - a) (drop a text)"

definition sliceFrom :: "string \<Rightarrow> nat \<Rightarrow> string" where
  "sliceFrom text a = drop a text"

subsection \<open>Regular expressions\<close>

text \<open>
  The source builds its patterns as strings and hands them to \<open>new RegExp(_, 'gi')\<close>.
  \<open>escapedClass\<close> is the class of line 171 and line 182, whose members
  \<open>replace(_, '\\$&')\<close> prefixes with a backslash. \<open>syntaxCharacter\<close> is the set of
  characters with a meaning in a pattern, as the language definition lists them.
\<close>

definition backslash :: char where
  "backslash = CHR 0x5C"

definition escapedClass :: "char list" where
  "escapedClass = ''.*+?^${}()|[]'' @ [backslash]"

definition syntaxCharacter :: "char \<Rightarrow> bool" where
  "syntaxCharacter c = (c \<in> set (''^$'' @ [backslash] @ ''.*+?()[]{}|''))"

fun escapeRegExp :: "string \<Rightarrow> string" where
  "escapeRegExp [] = []"
| "escapeRegExp (c # cs) =
     (if c \<in> set escapedClass then backslash # c # escapeRegExp cs
      else c # escapeRegExp cs)"

text \<open>The separator \<open>'[\\s\\n]+'\<close> of line 183, as the characters of the pattern.\<close>

definition whiteSpaceRun :: string where
  "whiteSpaceRun = ''['' @ [backslash] @ ''s'' @ [backslash] @ ''n]+''"

text \<open>
  A compiled pattern is a sequence of atoms: a literal character, or \<open>Spaces\<close> for
  \<open>[\s\n]+\<close>, one or more characters of white space (\<open>\n\<close> is in \<open>\s\<close>).
  \<open>parsePattern\<close> reads the fragment of the pattern language that the source can
  produce: a character without meaning stands for itself, a backslash before a syntax
  character makes it literal, and \<open>[\s\n]+\<close> is \<open>Spaces\<close>. Any other pattern is outside
  the model (\<open>None\<close>).
\<close>

datatype atom = Lit char | Spaces

function parsePattern :: "string \<Rightarrow> atom list option" where
  "parsePattern src =
     (case src of
        [] \<Rightarrow> Some []
      | c # cs \<Rightarrow>
          if c = backslash then
            (case cs of
               [] \<Rightarrow> None
             | d # ds \<Rightarrow>
                 if syntaxCharacter d then map_option ((#) (Lit d)) (parsePattern ds) else None)
          else if take (length whiteSpaceRun) src = whiteSpaceRun then
            map_option ((#) Spaces) (parsePattern (drop (length whiteSpaceRun) src))
          else if syntaxCharacter c then None
          else map_option ((#) (Lit c)) (parsePattern cs))"
  by pat_completeness auto
termination
  by (relation "measure length") (auto simp: whiteSpaceRun_def)

declare parsePattern.simps [simp del]

text \<open>
  The flag \<open>i\<close>: two characters match when their canonical forms are equal. Without
  the flag \<open>u\<close> the canonical form is the upper-case letter when that is a single code
  unit. Below 256 these are the letters \<open>a\<close> to \<open>z\<close> and \<open>0xE0\<close> to \<open>0xFE\<close> without
  \<open>0xF7\<close>; the upper-case forms of \<open>0xB5\<close> and \<open>0xFF\<close> lie above 255 and are the
  canonical form of no other character below 256, so both stand for themselves here.
\<close>

definition canonicalize :: "char \<Rightarrow> char" where
  "canonicalize c =
     (let n = (of_char c :: nat)
      in if (97 \<le> n \<and> n \<le> 122) \<or> (224 \<le> n \<and> n \<le> 254 \<and> n \<noteq> 247)
         then char_of (n - 32) else c)"

text \<open>
  Matching a pattern at the start of \<open>cs\<close>, by backtracking: the length of the match, or
  \<open>None\<close>. \<open>Spaces\<close> is greedy: it first takes the whole run of white space and gives
  characters back one by one (\<open>tryRuns\<close>) while the rest of the pattern fails.
\<close>

fun matchHere :: "atom list \<Rightarrow> string \<Rightarrow> nat option"
  and tryRuns :: "atom list \<Rightarrow> string \<Rightarrow> nat \<Rightarrow> nat option" where
  "matchHere [] cs = Some 0"
| "matchHere (Lit c # p) [] = None"
| "matchHere (Lit c # p) (d # ds) =
     (if canonicalize c = canonicalize d then map_option Suc (matchHere p ds) else None)"
| "matchHere (Spaces # p) cs = tryRuns p cs (length (takeWhile isWhiteSpace cs))"
| "tryRuns p cs 0 = None"
| "tryRuns p cs (Suc k) =
     (case matchHere p (drop (Suc k) cs) of
        Some n \<Rightarrow> Some (Suc k + n)
      | None \<Rightarrow> tryRuns p cs k)"

text \<open>
  The first position of \<open>cs\<close> at which the pattern matches, as an offset into \<open>cs\<close>,
  with the length of the match there. The end of the string is tried too.
\<close>

fun search :: "atom list \<Rightarrow> string \<Rightarrow> (nat \<times> nat) option" where
  "search p cs =
     (case matchHere p cs of
        Some n \<Rightarrow> Some (0, n)
      | None \<Rightarrow>
          (case cs of
             [] \<Rightarrow> None
           | d # ds \<Rightarrow> map_option (\<lambda>(k, n). (Suc k, n)) (search p ds)))"

declare search.simps [simp del]

text \<open>
  The loop \<open>while ((match = regex.exec(text)) !== null)\<close> of lines 174 and 185, for a
  pattern with the flag \<open>g\<close>: each \<open>exec\<close> searches from \<open>regex.lastIndex\<close> and leaves
  \<open>lastIndex\<close> at the end of the match it found. The result lists \<open>match.index\<close> and
  \<open>match.index + match[0].length\<close> of every round. An empty match leaves
  \<open>lastIndex\<close> where it was, so the same match is found again and the loop never ends:
  the result is \<open>None\<close>.
\<close>

function execAll :: "atom list \<Rightarrow> string \<Rightarrow> nat \<Rightarrow> (nat \<times> nat) list option" where
  "execAll p text lastIndex =
     (if length text < lastIndex then Some []
      else
        (case search p (drop lastIndex text) of
           None \<Rightarrow> Some []
         | Some (k, n) \<Rightarrow>
             if n = 0 then None
             else map_option ((#) (lastIndex + k, lastIndex + k + n))
                    (execAll p text (lastIndex + k + n))))"
  by pat_completeness auto
termination
  by (relation "measure (\<lambda>(p, text, lastIndex). Suc (length text) - lastIndex)") auto

declare execAll.simps [simp del]

subsection \<open>Matches\<close>

text \<open>
  The interface \<open>Match\<close> of line 167. \<open>type\<close> and \<open>data\<close> are one field here: a match of
  type \<open>'note'\<close> is only ever built together with its data, the highlight and its
  1-based index.
\<close>

datatype match_kind = SearchMatch | NoteMatch highlight nat

record match =
  match_start :: nat
  match_end :: nat
  match_kind :: match_kind
  priority :: nat

definition searchMatch :: "nat \<times> nat \<Rightarrow> match" where
  "searchMatch found =
     \<lparr>match_start = fst found, match_end = snd found, match_kind = SearchMatch, priority = 1\<rparr>"

definition noteMatch :: "highlight \<Rightarrow> nat \<Rightarrow> nat \<times> nat \<Rightarrow> match" where
  "noteMatch h index found =
     \<lparr>match_start = fst found, match_end = snd found, match_kind = NoteMatch h (index + 1),
      priority = 2\<rparr>"

text \<open>Lines 170 to 177.\<close>

definition searchMatches :: "string \<Rightarrow> string \<Rightarrow> match list option" where
  "searchMatches searchQuery text =
     (if trim searchQuery \<noteq> [] then
        (case parsePattern (escapeRegExp searchQuery) of
           None \<Rightarrow> None
         | Some regex \<Rightarrow> map_option (map searchMatch) (execAll regex text 0))
      else Some [])"

text \<open>Lines 181 to 183: the pattern source built for the text of a highlight.\<close>

definition highlightSource :: "string \<Rightarrow> string" where
  "highlightSource t =
     (let clean = trim (collapseWhiteSpace t);
          escaped = map escapeRegExp (split clean)
      in join whiteSpaceRun escaped)"

text \<open>The body of the \<open>forEach\<close> of lines 179 to 188, for one highlight.\<close>

definition highlightMatches :: "string \<Rightarrow> highlight \<Rightarrow> nat \<Rightarrow> match list option" where
  "highlightMatches text h index =
     (if trim (highlight_text h) = [] then Some []
      else
        (case parsePattern (highlightSource (highlight_text h)) of
           None \<Rightarrow> None
         | Some regex \<Rightarrow> map_option (map (noteMatch h index)) (execAll regex text 0)))"

fun noteMatches :: "string \<Rightarrow> highlight list \<Rightarrow> nat \<Rightarrow> match list option" where
  "noteMatches text [] index = Some []"
| "noteMatches text (h # hs) index =
     (case highlightMatches text h index of
        None \<Rightarrow> None
      | Some ms \<Rightarrow> map_option ((@) ms) (noteMatches text hs (Suc index)))"

subsection \<open>The sweep\<close>

text \<open>
  What \<open>HighlightText\<close> renders: literal text, a \<open>mark\<close> for a search match (with the
  start offset of its key), and a \<open>span\<close> for a note (with the highlight, the index shown
  in the \<open>sup\<close> label, and the start offset of its key). The last field is the slice of
  the text the element shows.
\<close>

datatype segment =
    Literal string
  | SearchMark nat string
  | NoteSpan highlight nat nat string

fun segmentText :: "segment \<Rightarrow> string" where
  "segmentText (Literal s) = s"
| "segmentText (SearchMark start s) = s"
| "segmentText (NoteSpan h index start s) = s"


text \<open>The element pushed for a match (lines 196 to 206).\<close>

definition element :: "string \<Rightarrow> match \<Rightarrow> segment" where
  "element text m =
     (case match_kind m of
        SearchMatch \<Rightarrow> SearchMark (match_start m) (slice text (match_start m) (match_end m))
      | NoteMatch h index \<Rightarrow>
          NoteSpan h index (match_start m) (slice text (match_start m) (match_end m)))"

text \<open>The loop of lines 192 to 209, from a given \<open>lastIndex\<close>.\<close>

fun sweep :: "string \<Rightarrow> nat \<Rightarrow> match list \<Rightarrow> segment list" where
  "sweep text lastIndex [] =
     (if lastIndex < length text then [Literal (sliceFrom text lastIndex)] else [])"
| "sweep text lastIndex (m # ms) =
     (if match_start m < lastIndex then sweep text lastIndex ms
      else
        (if match_start m > lastIndex then [Literal (slice text lastIndex (match_start m))]
         else [])
        @ element text m # sweep text (match_end m) ms)"

text \<open>
  \<open>HighlightText\<close> (lines 160 to 211). \<open>matches.sort((a, b) => a.start - b.start)\<close> is a
  stable sort on the start offset. The result is \<open>None\<close> when the function does not
  return a rendering in the model.
\<close>

definition HighlightText :: "string \<Rightarrow> highlight list \<Rightarrow> string \<Rightarrow> segment list option" where
  "HighlightText searchQuery chapterHighlights text =
     (if trim searchQuery = [] \<and> chapterHighlights = [] then Some [Literal text]
      else
        (case searchMatches searchQuery text of
           None \<Rightarrow> None
         | Some found \<Rightarrow>
             (case noteMatches text chapterHighlights 0 of
                None \<Rightarrow> None
              | Some notes \<Rightarrow> Some (sweep text 0 (sort_key match_start (found @ notes))))))"

subsection \<open>Notions used to state the properties of the matcher\<close>

text \<open>
  The words of a string: its maximal runs of characters that are not white space. This
  is the reading of ``collapse runs of white space and trim'' that the normalisation of
  a highlight's text is compared with.
\<close>

function wsWords :: "string \<Rightarrow> string list" where
  "wsWords s =
     (case dropWhile isWhiteSpace s of
        [] \<Rightarrow> []
      | c # cs \<Rightarrow>
          takeWhile (\<lambda>x. \<not> isWhiteSpace x) (c # cs)
            # wsWords (dropWhile (\<lambda>x. \<not> isWhiteSpace x) (c # cs)))"
  by pat_completeness auto
termination
proof (relation "measure length")
  show "wf (measure length)" by simp
next
  fix s :: string and c cs
  assume rest: "dropWhile isWhiteSpace s = c # cs"
  then have "\<not> isWhiteSpace c"
    using hd_dropWhile [of isWhiteSpace s] by auto
  then have "length (dropWhile (\<lambda>x. \<not> isWhiteSpace x) (c # cs)) \<le> length cs"
    by (simp add: length_dropWhile_le)
  moreover have "length (c # cs) \<le> length s"
    using rest length_dropWhile_le [of isWhiteSpace s] by simp
  ultimately show "(dropWhile (\<lambda>x. \<not> isWhiteSpace x) (c # cs), s) \<in> measure length"
    by simp
qed

declare wsWords.simps [simp del]

text \<open>The pattern that matches the given words with white space between them.\<close>

fun wordsPattern :: "string list \<Rightarrow> atom list" where
  "wordsPattern [] = []"
| "wordsPattern [w] = map Lit w"
| "wordsPattern (w # v # ws) = map Lit w @ Spaces # wordsPattern (v # ws)"




text \<open>
  Segments laid end to end from an offset: every \<open>mark\<close> and \<open>span\<close> sits at the start
  offset its key carries, and the next segment begins where the one before ends.
\<close>

fun placed :: "nat \<Rightarrow> segment list \<Rightarrow> bool" where
  "placed offset [] = True"
| "placed offset (Literal s # segments) = placed (offset + length s) segments"
| "placed offset (SearchMark start s # segments) =
     (start = offset \<and> placed (offset + length s) segments)"
| "placed offset (NoteSpan h index start s # segments) =
     (start = offset \<and> placed (offset + length s) segments)"

section \<open>Verified properties\<close>

subsection \<open>Pagination engine\<close>

lemma calculatePages_repair:
  "pageChanges (snd (calculatePages i obs dims m tp)) = repairOf i dims m"
  by (cases m) (simp_all add: calculatePages_def repairOf_def pageChanges_def Let_def)

lemma runPasses_repair:
  "pageChanges (snd (runPasses i obs dims ms tp)) = concat (map (repairOf i dims) ms)"
proof (induction ms arbitrary: tp)
  case Nil
  then show ?case by (simp add: pageChanges_def)
next
  case (Cons m ms)
  have "pageChanges (snd (runPasses i obs dims (m # ms) tp))
        = pageChanges (snd (calculatePages i obs dims m tp))
          @ pageChanges (snd (runPasses i obs dims ms (fst (calculatePages i obs dims m tp))))"
    by (simp add: pageChanges_def split_beta Let_def)
  then show ?case using Cons.IH by (simp add: calculatePages_repair)
qed

text \<open>
  Claim C1, as the code has it. In every pass of \<open>calculatePages\<close>, when the captured
  \<open>currentPageIndex\<close> is not below the page count \<open>P\<close> the pass computes, the pass calls
  \<open>onPageChange(P - 1)\<close> exactly once, and otherwise it does not call \<open>onPageChange\<close>.
  Over a run of the effect the calls of \<open>onPageChange\<close> are those of its passes, one
  after the other: one call for every pass that finds the captured index out of range.
\<close>

theorem bounds_repair_per_pass:
  "pageChanges (snd (calculatePages i obs dims (Some S) tp))
     = (if js_ge i (pageCount S dims)
        then [OnPageChange (js_sub (pageCount S dims) (Num 1))] else [])
   \<and> pageChanges (snd (pageEffect i obs (Some dims) (Some S) later tp))
     = concat (map (repairOf i dims) (Some S # later))"
proof -
  have pass: "pageChanges (snd (calculatePages i obs dims (Some S) tp))
     = (if js_ge i (pageCount S dims)
        then [OnPageChange (js_sub (pageCount S dims) (Num 1))] else [])"
    by (simp add: calculatePages_repair repairOf_def)
  have "pageEffect i obs (Some dims) (Some S) later tp
          = runPasses i obs dims (Some S # later) tp"
    by (simp add: pageEffect_def)
  then have run: "pageChanges (snd (pageEffect i obs (Some dims) (Some S) later tp))
     = concat (map (repairOf i dims) (Some S # later))"
    by (simp only: runPasses_repair)
  from pass run show ?thesis by (rule conjI)
qed

theorem bounds_repair_per_pass_witness:
  "pageChanges (snd (calculatePages (Num 5) True \<lparr>width = 100, height = 50\<rparr> (Some 300) (Num 1)))
     = [OnPageChange (Num 2)]
   \<and> pageChanges (snd (calculatePages (Num 1) True \<lparr>width = 100, height = 50\<rparr> (Some 300) (Num 1)))
     = []"
  using bounds_repair_per_pass [of "Num 5" True "\<lparr>width = 100, height = 50\<rparr>" 300 "Num 1" "[]"]
        bounds_repair_per_pass [of "Num 1" True "\<lparr>width = 100, height = 50\<rparr>" 300 "Num 1" "[]"]
  by (simp add: pageCount_def js_ge_def)

text \<open>
  Claim C1 as stated fails: index 5 supplied to a chapter of 3 pages is clamped to 2 by
  the immediate pass and again by each of the two timers, three calls in all.
\<close>

theorem bounds_repair_fires_per_pass:
  "pageChanges (snd (pageEffect (Num 5) True (Some \<lparr>width = 100, height = 50\<rparr>)
                       (Some 300) [Some 300, Some 300] (Num 1)))
     = [OnPageChange (Num 2), OnPageChange (Num 2), OnPageChange (Num 2)]"
  by (simp add: pageEffect_def calculatePages_def pageCount_def pageChanges_def js_ge_def
      js_strict_neq_def js_strict_eq_def Let_def)

text \<open>
  Claim C2, as the code has it. The engine computes no page count, and makes no call,
  while \<open>layoutDims\<close> is unset or the content element is missing; and for every stored
  measurement whose width is above zero the page count is a finite integer, at least 1.
\<close>

theorem no_measurement_no_pages:
  "pageEffect i obs None now later tp = (tp, [])
   \<and> pageEffect i obs layoutDims None later tp = (tp, [])
   \<and> (0 < width dims \<longrightarrow> (\<exists>n. 1 \<le> n \<and> pageCount S dims = Num n))"
  by (simp add: pageEffect_def pageCount_def split: option.split)

theorem no_measurement_no_pages_witness:
  "pageEffect (Num 0) True None (Some 300) [Some 300] (Num 1) = (Num 1, [])
   \<and> (0::rat) < width \<lparr>width = 100, height = 50\<rparr>
   \<and> pageCount 250 \<lparr>width = 100, height = 50\<rparr> = Num 3"
  using no_measurement_no_pages [of "Num 0" True "Some 300" "[Some 300]" "Num 1" None
          "\<lparr>width = 100, height = 50\<rparr>" 250]
  by (simp add: pageCount_def ceiling_eq_iff)

text \<open>
  Claim C2 as stated fails: a rectangle of width 0 is stored by the resize observer like
  any other and is not taken as a missing measurement. With an empty content the page
  count is NaN, with a content of width 300 it is infinite, and both are reported to the
  observer of the page count; a negative width gives the count 1.
\<close>

theorem zero_width_is_computed:
  "resizeObserved None \<lparr>width = 0, height = 0\<rparr> = Some \<lparr>width = 0, height = 0\<rparr>
   \<and> pageEffect (Num 0) True (resizeObserved None \<lparr>width = 0, height = 0\<rparr>) (Some 0) []
        (Num 1)
     = (NaN, [OnTotalPagesChange NaN])
   \<and> pageEffect (Num 0) True (resizeObserved None \<lparr>width = 0, height = 0\<rparr>) (Some 300) []
        (Num 1)
     = (PosInf, [OnTotalPagesChange PosInf])
   \<and> pageEffect (Num 0) True (Some \<lparr>width = - 2, height = 0\<rparr>) (Some 300) [] (Num 5)
     = (Num 1, [OnTotalPagesChange (Num 1)])"
  by (simp add: resizeObserved_def pageEffect_def calculatePages_def pageCount_def js_ge_def
      js_strict_neq_def js_strict_eq_def Let_def signed_inf_def)



subsection \<open>Navigation\<close>

text \<open>
  Claim C6. Advance: when \<open>currentPageIndex < totalPages - 1\<close> the only call is
  \<open>onPageChange(currentPageIndex + 1)\<close>; otherwise the only call is \<open>onNextChapter()\<close>
  when it was given, and there is no call at all when it was not. Retreat: when
  \<open>currentPageIndex > 0\<close> the only call is \<open>onPageChange(currentPageIndex - 1)\<close>;
  otherwise \<open>onPrevChapter()\<close> when given, and no call when not. With no call the
  page index, which only \<open>onPageChange\<close> changes, stays as it is. The last two lines
  spell the rule out for finite indices and counts.
\<close>

theorem navigation_intents:
  "(js_lt i (js_sub tp (Num 1)) \<longrightarrow> goToNextPage i tp nc = [OnPageChange (js_add i (Num 1))])
   \<and> (\<not> js_lt i (js_sub tp (Num 1)) \<and> nc \<longrightarrow> goToNextPage i tp nc = [OnNextChapter])
   \<and> (\<not> js_lt i (js_sub tp (Num 1)) \<and> \<not> nc \<longrightarrow> goToNextPage i tp nc = [])
   \<and> (js_gt i (Num 0) \<longrightarrow> goToPrevPage i pc = [OnPageChange (js_sub i (Num 1))])
   \<and> (\<not> js_gt i (Num 0) \<and> pc \<longrightarrow> goToPrevPage i pc = [OnPrevChapter])
   \<and> (\<not> js_gt i (Num 0) \<and> \<not> pc \<longrightarrow> goToPrevPage i pc = [])
   \<and> goToNextPage (Num k) (Num t) nc
       = (if k < t - 1 then [OnPageChange (Num (k + 1))]
          else if nc then [OnNextChapter] else [])
   \<and> goToPrevPage (Num k) pc
       = (if 0 < k then [OnPageChange (Num (k - 1))]
          else if pc then [OnPrevChapter] else [])"
  by (simp add: goToNextPage_def goToPrevPage_def js_gt_def)

theorem navigation_intents_witness:
  "js_lt (Num 3) (js_sub (Num 10) (Num (1::int)))
   \<and> goToNextPage (Num 3) (Num 10) False = [OnPageChange (Num 4)]
   \<and> \<not> js_lt (Num 9) (js_sub (Num 10) (Num (1::int)))
   \<and> goToNextPage (Num 9) (Num 10) True = [OnNextChapter]
   \<and> goToNextPage (Num 9) (Num 10) False = []
   \<and> js_gt (Num 3) (Num (0::int))
   \<and> goToPrevPage (Num 3) False = [OnPageChange (Num 2)]
   \<and> \<not> js_gt (Num 0) (Num (0::int))
   \<and> goToPrevPage (Num 0) True = [OnPrevChapter]
   \<and> goToPrevPage (Num 0) False = []"
  using navigation_intents [of "Num 3" "Num 10" False False 3 10]
        navigation_intents [of "Num 9" "Num 10" True True 9 10]
        navigation_intents [of "Num 9" "Num 10" False False 9 10]
        navigation_intents [of "Num 0" "Num 10" False True 0 10]
        navigation_intents [of "Num 0" "Num 10" False False 0 10]
  by (simp add: js_gt_def)

subsection \<open>Reading footer\<close>

text \<open>
  Claim C7, as the code has it. The estimate has no guard of its own: it divides
  \<open>totalWords\<close> by \<open>totalPages\<close> as given. For \<open>totalWords = 0\<close> and a finite
  \<open>totalPages\<close> other than 0 the estimate is 0 minutes and the text is
  \<open>Almost done\<close>; for \<open>totalPages = 0\<close> with \<open>totalWords > 0\<close> and \<open>currentPage > 0\<close>
  the estimate is minus infinity and the text is \<open>Almost done\<close> again.
\<close>

theorem estimate_without_guard:
  "(p \<noteq> 0 \<longrightarrow> remainingMinutes (Num c) (Num p) (Num 0) = Num 0
                \<and> ReadingFooter (Num c) (Num p) (Num 0) = ''Almost done'')
   \<and> (0 < w \<and> 0 < c \<longrightarrow> remainingMinutes (Num c) (Num 0) (Num w) = NegInf
                \<and> ReadingFooter (Num c) (Num 0) (Num w) = ''Almost done'')"
  by (simp add: ReadingFooter_def remainingMinutes_def formatTime_def AVERAGE_WPM_def
      signed_inf_def)

theorem estimate_without_guard_witness:
  "(20::int) \<noteq> 0 \<and> ReadingFooter (Num 10) (Num 20) (Num 0) = ''Almost done''
   \<and> (0::int) < 4760 \<and> (0::int) < 1 \<and> ReadingFooter (Num 1) (Num 0) (Num 4760) = ''Almost done''"
  using estimate_without_guard [of 20 10 4760] estimate_without_guard [of 20 1 4760]
  by simp

text \<open>
  Claim C7 as stated fails: with no pages and no words the quotient is NaN, and the
  text that is shown contains it. The same text is shown for no words and the infinite
  page count that the pagination engine reports for a viewport of width 0.
\<close>

theorem estimate_shows_NaN:
  "remainingMinutes (Num 1) (Num 0) (Num 0) = NaN
   \<and> ReadingFooter (Num 1) (Num 0) (Num 0) = ''~NaNh NaNm left''
   \<and> ReadingFooter (Num 1) PosInf (Num 0) = ''~NaNh NaNm left''"
  by (simp add: ReadingFooter_def remainingMinutes_def formatTime_def AVERAGE_WPM_def
      js_strict_eq_def)

text \<open>
  Claim C8. With 4760 words, 20 pages and current page 10, at 238 words per minute,
  10 minutes remain and the footer shows \<open>~10 min left\<close>.
\<close>

theorem estimate_example:
  "AVERAGE_WPM = Num 238
   \<and> js_mul (as_real (js_sub (Num 20) (Num 10)))
        (js_div (as_real (Num 4760)) (as_real (Num 20))) = Num 2380
   \<and> remainingMinutes (Num 10) (Num 20) (Num 4760) = Num 10
   \<and> ReadingFooter (Num 10) (Num 20) (Num 4760) = ''~10 min left''"
  by (simp add: ReadingFooter_def remainingMinutes_def formatTime_def AVERAGE_WPM_def
      digits.simps)

subsection \<open>Book store\<close>

text \<open>
  Claim C10. For a loaded book, \<open>saveReadingProgress\<close> hands to \<open>saveBook\<close> exactly one
  book, and stores that book when the write succeeds: its \<open>readingProgress\<close> is the one
  record made of the current chapter id, the current page index and the time of the
  call, whatever progress was there before, and its title, chapters, highlights, notes
  and all further fields are those of the book before. The chapter id and page index of
  the store stay as they are. When the write fails, or no book is loaded, the store is
  unchanged.
\<close>

theorem saveReadingProgress_frame:
  assumes "book st = Some b"
  shows "\<exists>b'. fst (saveReadingProgress now saveBook st) = [b']
           \<and> snd (saveReadingProgress now saveBook st)
               = (if saveBook b' then st\<lparr>book := Some b'\<rparr> else st)
           \<and> readingProgress b'
               = Some \<lparr>chapterId = currentChapterId st, pageIndex = currentPageIndex st,
                       lastRead = now\<rparr>
           \<and> title b' = title b \<and> chapters b' = chapters b \<and> highlights b' = highlights b
           \<and> book_notes b' = book_notes b \<and> book.more b' = book.more b
           \<and> currentChapterId (snd (saveReadingProgress now saveBook st)) = currentChapterId st
           \<and> currentPageIndex (snd (saveReadingProgress now saveBook st)) = currentPageIndex st"
  using assms by (simp add: saveReadingProgress_def Let_def)

theorem saveReadingProgress_frame_witness:
  "book \<lparr>book = Some \<lparr>title = ''T'', chapters = [], highlights = None,
                         book_notes = Some ''n'',
                         readingProgress = Some \<lparr>chapterId = ''c1'', pageIndex = Num 0,
                                                  lastRead = 5\<rparr>\<rparr>,
          currentChapterId = ''c2'', currentPageIndex = Num 7\<rparr>
     = Some \<lparr>title = ''T'', chapters = [], highlights = None, book_notes = Some ''n'',
             readingProgress = Some \<lparr>chapterId = ''c1'', pageIndex = Num 0, lastRead = 5\<rparr>\<rparr>
   \<and> map readingProgress
        (fst (saveReadingProgress 99 (\<lambda>b. True)
           \<lparr>book = Some \<lparr>title = ''T'', chapters = [], highlights = None,
                          book_notes = Some ''n'',
                          readingProgress = Some \<lparr>chapterId = ''c1'', pageIndex = Num 0,
                                                   lastRead = 5\<rparr>\<rparr>,
             currentChapterId = ''c2'', currentPageIndex = Num 7\<rparr>))
     = [Some \<lparr>chapterId = ''c2'', pageIndex = Num 7, lastRead = 99\<rparr>]
   \<and> map title
        (fst (saveReadingProgress 99 (\<lambda>b. True)
           \<lparr>book = Some \<lparr>title = ''T'', chapters = [], highlights = None,
                          book_notes = Some ''n'',
                          readingProgress = Some \<lparr>chapterId = ''c1'', pageIndex = Num 0,
                                                   lastRead = 5\<rparr>\<rparr>,
             currentChapterId = ''c2'', currentPageIndex = Num 7\<rparr>))
     = [''T'']"
proof -
  let ?b = "\<lparr>title = ''T'', chapters = [], highlights = None, book_notes = Some ''n'',
              readingProgress = Some \<lparr>chapterId = ''c1'', pageIndex = Num 0, lastRead = 5\<rparr>\<rparr>"
  let ?st = "\<lparr>book = Some ?b, currentChapterId = ''c2'', currentPageIndex = Num 7\<rparr>"
  have loaded: "book ?st = Some ?b" by simp
  from saveReadingProgress_frame [OF loaded, of 99 "\<lambda>b. True"]
  obtain b' where "fst (saveReadingProgress 99 (\<lambda>b. True) ?st) = [b']"
    and "readingProgress b'
           = Some \<lparr>chapterId = currentChapterId ?st, pageIndex = currentPageIndex ?st,
                   lastRead = 99\<rparr>"
    and "title b' = title ?b"
    by blast
  with loaded show ?thesis by simp
qed

subsection \<open>Matcher: patterns\<close>

lemma escapedClass_syntaxCharacter: "c \<in> set escapedClass \<longleftrightarrow> syntaxCharacter c"
  by (auto simp: escapedClass_def syntaxCharacter_def)

lemma parsePattern_Nil: "parsePattern [] = Some []"
  by (simp add: parsePattern.simps)

lemma parsePattern_literal:
  "\<not> syntaxCharacter c \<Longrightarrow> parsePattern (c # cs) = map_option ((#) (Lit c)) (parsePattern cs)"
proof -
  assume ns: "\<not> syntaxCharacter c"
  then have "c \<noteq> backslash" "c \<noteq> CHR ''[''"
    by (auto simp: syntaxCharacter_def backslash_def)
  moreover from this have "take (length whiteSpaceRun) (c # cs) \<noteq> whiteSpaceRun"
    by (auto simp: whiteSpaceRun_def)
  ultimately show ?thesis using ns
    by (subst parsePattern.simps) simp
qed

lemma parsePattern_escaped:
  "syntaxCharacter c \<Longrightarrow>
     parsePattern (backslash # c # cs) = map_option ((#) (Lit c)) (parsePattern cs)"
  by (subst parsePattern.simps) simp

lemma parsePattern_whiteSpaceRun:
  "parsePattern (whiteSpaceRun @ rest) = map_option ((#) Spaces) (parsePattern rest)"
  by (subst parsePattern.simps) (simp add: whiteSpaceRun_def backslash_def)

lemma parsePattern_escapeRegExp:
  "parsePattern (escapeRegExp w @ rest) = map_option ((@) (map Lit w)) (parsePattern rest)"
proof (induction w)
  case Nil
  show ?case by (simp add: option.map_ident)
next
  case (Cons c w)
  show ?case
  proof (cases "syntaxCharacter c")
    case True
    then show ?thesis
      using Cons.IH by (simp add: escapedClass_syntaxCharacter parsePattern_escaped option.map_comp comp_def)
  next
    case False
    then show ?thesis
      using Cons.IH by (simp add: escapedClass_syntaxCharacter parsePattern_literal option.map_comp comp_def)
  qed
qed

lemma parsePattern_join:
  "parsePattern (join whiteSpaceRun (map escapeRegExp ws)) = Some (wordsPattern ws)"
proof (induction ws rule: wordsPattern.induct)
  case 1
  show ?case by (simp add: parsePattern_Nil)
next
  case (2 w)
  show ?case using parsePattern_escapeRegExp [of w "[]"] by (simp add: parsePattern_Nil)
next
  case (3 w v ws)
  then show ?case
    by (simp add: parsePattern_escapeRegExp parsePattern_whiteSpaceRun)
qed

subsection \<open>Matcher: the search loop\<close>

lemma matchHere_positive:
  "matchHere p cs = Some n \<Longrightarrow> p \<noteq> [] \<Longrightarrow> 0 < n"
  "tryRuns p cs k = Some n \<Longrightarrow> 0 < n"
proof (induction p cs and p cs k arbitrary: n and n rule: matchHere_tryRuns.induct)
  case (1 cs)
  then show ?case by simp
next
  case (2 c p)
  then show ?case by simp
next
  case (3 c p d ds)
  then show ?case by (auto split: if_splits)
next
  case (4 p cs)
  then show ?case by simp
next
  case (5 p cs)
  then show ?case by simp
next
  case (6 p cs k)
  then show ?case by (auto split: option.splits)
qed

lemma matchHere_bound:
  "matchHere p cs = Some n \<Longrightarrow> n \<le> length cs"
  "tryRuns p cs k = Some n \<Longrightarrow> k \<le> length cs \<Longrightarrow> n \<le> length cs"
proof (induction p cs and p cs k arbitrary: n and n rule: matchHere_tryRuns.induct)
  case (1 cs)
  then show ?case by simp
next
  case (2 c p)
  then show ?case by simp
next
  case (3 c p d ds)
  then show ?case by (auto split: if_splits)
next
  case (4 p cs)
  have "length (takeWhile isWhiteSpace cs) \<le> length cs" by (rule length_takeWhile_le)
  with 4 show ?case by simp
next
  case (5 p cs)
  then show ?case by simp
next
  case (6 p cs k)
  show ?case
  proof (cases "matchHere p (drop (Suc k) cs)")
    case None
    with 6 show ?thesis by simp
  next
    case (Some j)
    with 6 have "j \<le> length (drop (Suc k) cs)" and "n = Suc k + j" by auto
    with 6(4) show ?thesis by simp
  qed
qed

lemma search_found:
  "search p cs = Some (k, n) \<Longrightarrow> k \<le> length cs \<and> matchHere p (drop k cs) = Some n"
proof (induction cs arbitrary: k)
  case Nil
  then show ?case by (auto simp: search.simps split: option.splits)
next
  case (Cons d ds)
  show ?case
  proof (cases "matchHere p (d # ds)")
    case (Some j)
    with Cons.prems show ?thesis by (simp add: search.simps)
  next
    case None
    with Cons.prems obtain k' where "search p ds = Some (k', n)" and "k = Suc k'"
      by (auto simp: search.simps [of p "d # ds"])
    with Cons.IH show ?thesis by simp
  qed
qed

lemma execAll_total:
  "p \<noteq> [] \<Longrightarrow> \<exists>found. execAll p doc lastIndex = Some found"
proof (induction p doc lastIndex rule: execAll.induct)
  case (1 p doc lastIndex)
  show ?case
  proof (cases "length doc < lastIndex")
    case True
    then show ?thesis by (simp add: execAll.simps)
  next
    case False
    show ?thesis
    proof (cases "search p (drop lastIndex doc)")
      case None
      with False show ?thesis by (simp add: execAll.simps)
    next
      case (Some kn)
      obtain k n where kn: "kn = (k, n)" by (cases kn)
      from Some kn search_found have "matchHere p (drop k (drop lastIndex doc)) = Some n"
        by blast
      with "1.prems" have pos: "n \<noteq> 0" using matchHere_positive(1) by blast
      from Some kn have S: "search p (drop lastIndex doc) = Some (k, n)" by simp
      from "1.IH" False S pos "1.prems"
      obtain found where "execAll p doc (lastIndex + k + n) = Some found" by blast
      with False Some kn pos show ?thesis by (simp add: execAll.simps [of p doc lastIndex])
    qed
  qed
qed

lemma execAll_spans:
  "execAll p doc lastIndex = Some found \<Longrightarrow>
     list_all (\<lambda>(s, e). lastIndex \<le> s \<and> s < e \<and> e \<le> length doc) found"
proof (induction p doc lastIndex arbitrary: found rule: execAll.induct)
  case (1 p doc lastIndex)
  show ?case
  proof (cases "length doc < lastIndex")
    case True
    with "1.prems" show ?thesis by (simp add: execAll.simps)
  next
    case False
    show ?thesis
    proof (cases "search p (drop lastIndex doc)")
      case None
      with False "1.prems" show ?thesis by (simp add: execAll.simps)
    next
      case (Some kn)
      obtain k n where kn: "kn = (k, n)" by (cases kn)
      from "1.prems" False Some kn have pos: "n \<noteq> 0"
        by (auto simp: execAll.simps [of p doc lastIndex] split: if_splits)
      from "1.prems" False Some kn pos obtain rest where
        rest: "execAll p doc (lastIndex + k + n) = Some rest"
        and found: "found = (lastIndex + k, lastIndex + k + n) # rest"
        by (auto simp: execAll.simps [of p doc lastIndex])
      from Some kn search_found
      have k: "k \<le> length (drop lastIndex doc)"
        and m: "matchHere p (drop k (drop lastIndex doc)) = Some n" by blast+
      from m have "n \<le> length (drop k (drop lastIndex doc))" by (rule matchHere_bound(1))
      with k False have bound: "lastIndex + k + n \<le> length doc" by simp
      from Some kn have S: "search p (drop lastIndex doc) = Some (k, n)" by simp
      from "1.IH" False S pos rest
      have "list_all (\<lambda>(s, e). lastIndex + k + n \<le> s \<and> s < e \<and> e \<le> length doc) rest"
        by blast
      then have "list_all (\<lambda>(s, e). lastIndex \<le> s \<and> s < e \<and> e \<le> length doc) rest"
        by (auto simp: list_all_iff)
      with found pos bound show ?thesis by simp
    qed
  qed
qed

subsection \<open>Matcher: what a pattern matches\<close>




subsection \<open>Matcher: the text of a highlight\<close>

lemma isWhiteSpace_space: "isWhiteSpace CHR '' ''"
  by (simp add: isWhiteSpace_def)

lemma rstrip_append:
  "rev (dropWhile P (rev (a @ b)))
     = (if rev (dropWhile P (rev b)) = [] then rev (dropWhile P (rev a))
        else a @ rev (dropWhile P (rev b)))"
  by (auto simp: dropWhile_append dropWhile_eq_Nil_conv)

lemma rstrip_append_blank:
  "rev (dropWhile P (rev b)) = [] \<Longrightarrow>
     rev (dropWhile P (rev (a @ b))) = rev (dropWhile P (rev a))"
  by (simp only: rstrip_append refl if_True)

lemma rstrip_append_text:
  "rev (dropWhile P (rev b)) \<noteq> [] \<Longrightarrow>
     rev (dropWhile P (rev (a @ b))) = a @ rev (dropWhile P (rev b))"
  by (simp only: rstrip_append if_False)

lemma rstrip_word:
  "w \<noteq> [] \<Longrightarrow> list_all (\<lambda>x. \<not> P x) w \<Longrightarrow> rev (dropWhile P (rev w)) = w"
proof -
  assume "w \<noteq> []" and nw: "list_all (\<lambda>x. \<not> P x) w"
  then obtain y ys where r: "rev w = y # ys" by (cases "rev w") auto
  then have "y \<in> set w" by (metis list.set_intros(1) set_rev)
  with nw have "\<not> P y" by (simp add: list_all_iff)
  with r show ?thesis by (metis dropWhile.simps(2) rev_rev_ident)
qed

lemma collapse_word:
  "list_all (\<lambda>x. \<not> isWhiteSpace x) w \<Longrightarrow>
     collapseWhiteSpace (w @ r) = w @ collapseWhiteSpace r"
  by (induction w) simp_all

lemma wsWords_blank: "dropWhile isWhiteSpace s = [] \<Longrightarrow> wsWords s = []"
proof -
  assume a: "dropWhile isWhiteSpace s = []"
  show ?thesis by (subst wsWords.simps, subst a, simp)
qed

lemma wsWords_word:
  "dropWhile isWhiteSpace s = c # cs \<Longrightarrow>
     wsWords s = takeWhile (\<lambda>x. \<not> isWhiteSpace x) (c # cs)
                   # wsWords (dropWhile (\<lambda>x. \<not> isWhiteSpace x) (c # cs))"
proof -
  assume a: "dropWhile isWhiteSpace s = c # cs"
  show ?thesis by (subst wsWords.simps, subst a, simp)
qed

lemma wsWords_Nil: "wsWords [] = []"
  by (simp add: wsWords_blank)

lemma wsWords_dropWhile: "wsWords (dropWhile isWhiteSpace s) = wsWords s"
proof (cases "dropWhile isWhiteSpace s")
  case Nil
  then show ?thesis by (simp add: wsWords_blank wsWords_Nil)
next
  case (Cons c cs)
  then have "\<not> isWhiteSpace c" using hd_dropWhile [of isWhiteSpace s] by auto
  then have "dropWhile isWhiteSpace (c # cs) = c # cs" by simp
  with Cons show ?thesis by (simp add: wsWords_word [of s c cs] wsWords_word [of "c # cs" c cs] del: takeWhile.simps dropWhile.simps)
qed

lemma wsWords_words:
  "list_all (\<lambda>w. w \<noteq> [] \<and> list_all (\<lambda>x. \<not> isWhiteSpace x) w) (wsWords s)"
proof (induction s rule: wsWords.induct)
  case (1 s)
  show ?case
  proof (cases "dropWhile isWhiteSpace s")
    case Nil
    then show ?thesis by (simp add: wsWords_blank)
  next
    case (Cons c cs)
    then have nc: "\<not> isWhiteSpace c" using hd_dropWhile [of isWhiteSpace s] by auto
    have "list_all (\<lambda>x. \<not> isWhiteSpace x) (takeWhile (\<lambda>x. \<not> isWhiteSpace x) (c # cs))"
      unfolding list_all_iff using set_takeWhileD by fastforce
    with Cons nc "1.IH" [OF Cons] show ?thesis by (simp add: wsWords_word [OF Cons])
  qed
qed

lemma join_words_nonempty:
  "ws \<noteq> [] \<Longrightarrow> list_all (\<lambda>w. w \<noteq> []) ws \<Longrightarrow> join sep ws \<noteq> []"
  by (induction sep ws rule: join.induct) simp_all

lemma rstrip_collapse:
  "rev (dropWhile isWhiteSpace (rev (collapseWhiteSpace (dropWhile isWhiteSpace s))))
     = join '' '' (wsWords s)"
proof (induction s rule: wsWords.induct)
  case (1 s)
  show ?case
  proof (cases "dropWhile isWhiteSpace s")
    case Nil
    show ?thesis unfolding Nil wsWords_blank [OF Nil] by simp
  next
    case (Cons c cs)
    then have nc: "\<not> isWhiteSpace c" using hd_dropWhile [of isWhiteSpace s] by auto
    define w where "w = takeWhile (\<lambda>x. \<not> isWhiteSpace x) (c # cs)"
    define r where "r = dropWhile (\<lambda>x. \<not> isWhiteSpace x) (c # cs)"
    have w: "w \<noteq> []" "list_all (\<lambda>x. \<not> isWhiteSpace x) w"
      using nc by (auto simp: w_def list_all_iff dest: set_takeWhileD)
    have split: "c # cs = w @ r" by (simp add: w_def r_def)
    have words: "wsWords s = w # wsWords r"
      using wsWords_word [OF Cons] by (simp add: w_def r_def)
    have col: "collapseWhiteSpace (dropWhile isWhiteSpace s) = w @ collapseWhiteSpace r"
      using collapse_word [OF w(2), of r] Cons split by simp
    have IH: "rev (dropWhile isWhiteSpace (rev (collapseWhiteSpace (dropWhile isWhiteSpace r))))
                = join '' '' (wsWords r)"
      using "1.IH" [OF Cons] by (simp add: r_def)
    show ?thesis
    proof (cases r)
      case Nil
      with col words w show ?thesis by (simp add: wsWords_Nil rstrip_word)
    next
      case r: (Cons d ds)
      then have d: "isWhiteSpace d"
        using hd_dropWhile [of "\<lambda>x. \<not> isWhiteSpace x" "c # cs"] by (auto simp: r_def)
      define X where "X = collapseWhiteSpace (dropWhile isWhiteSpace r)"
      have cr: "collapseWhiteSpace r = CHR '' '' # X"
        using r d by (simp add: X_def)
      have whole: "collapseWhiteSpace (dropWhile isWhiteSpace s) = (w @ '' '') @ X"
        using col cr by simp
      have sp: "rev (dropWhile isWhiteSpace (rev (w @ '' ''))) = w"
        using w by (simp add: rstrip_word isWhiteSpace_space)
      show ?thesis
      proof (cases "wsWords r")
        case Nil
        with IH have blank: "rev (dropWhile isWhiteSpace (rev X)) = []" by (simp add: X_def)
        have "rev (dropWhile isWhiteSpace (rev ((w @ '' '') @ X)))
                = rev (dropWhile isWhiteSpace (rev (w @ '' '')))"
          by (rule rstrip_append_blank [OF blank])
        with whole sp words Nil show ?thesis by simp
      next
        case (Cons v vs)
        have "list_all (\<lambda>w. w \<noteq> []) (wsWords r)"
          using wsWords_words [of r] by (simp add: list_all_iff)
        with Cons have ne: "join '' '' (wsWords r) \<noteq> []"
          by (intro join_words_nonempty) simp_all
        with IH have X: "rev (dropWhile isWhiteSpace (rev X)) = join '' '' (wsWords r)"
          "rev (dropWhile isWhiteSpace (rev X)) \<noteq> []" by (simp_all add: X_def)
        have "rev (dropWhile isWhiteSpace (rev ((w @ '' '') @ X)))
                = (w @ '' '') @ rev (dropWhile isWhiteSpace (rev X))"
          by (rule rstrip_append_text [OF X(2)])
        with whole X(1) words Cons show ?thesis by simp
      qed
    qed
  qed
qed

lemma collapse_stripped:
  "dropWhile isWhiteSpace (collapseWhiteSpace s) = collapseWhiteSpace (dropWhile isWhiteSpace s)"
proof -
  have start: "dropWhile isWhiteSpace (collapseWhiteSpace u) = collapseWhiteSpace u"
    if "u = [] \<or> \<not> isWhiteSpace (hd u)" for u
    using that by (cases u) auto
  show ?thesis
  proof (cases s)
    case Nil
    then show ?thesis by simp
  next
    case (Cons c cs)
    show ?thesis
    proof (cases "isWhiteSpace c")
      case True
      have "dropWhile isWhiteSpace cs = [] \<or> \<not> isWhiteSpace (hd (dropWhile isWhiteSpace cs))"
        using hd_dropWhile [of isWhiteSpace cs] by auto
      from start [OF this] True Cons show ?thesis by (simp add: isWhiteSpace_space)
    next
      case False
      with Cons show ?thesis by simp
    qed
  qed
qed

text \<open>After \<open>replace(/\s+/g, ' ').trim()\<close> a string is its words with one space between.\<close>

lemma trim_collapse: "trim (collapseWhiteSpace s) = join '' '' (wsWords s)"
  by (simp add: trim_def collapse_stripped rstrip_collapse)

lemma trim_blank: "trim s = [] \<longleftrightarrow> wsWords s = []"
proof (cases "dropWhile isWhiteSpace s")
  case Nil
  show ?thesis unfolding trim_def Nil wsWords_blank [OF Nil] by simp
next
  case (Cons c cs)
  then have "\<not> isWhiteSpace c" using hd_dropWhile [of isWhiteSpace s] by auto
  then have "\<not> (\<forall>x\<in>set (rev (c # cs)). isWhiteSpace x)" by auto
  then have "dropWhile isWhiteSpace (rev (c # cs)) \<noteq> []"
    unfolding dropWhile_eq_Nil_conv .
  with Cons show ?thesis by (simp add: trim_def wsWords_word [OF Cons])
qed

lemma split_word: "CHR '' '' \<notin> set w \<Longrightarrow> split w = [w]"
  by (induction w) auto

lemma split_word_append:
  "CHR '' '' \<notin> set w \<Longrightarrow> split (w @ CHR '' '' # rest) = w # split rest"
  by (induction w) auto

lemma split_join:
  "ws \<noteq> [] \<Longrightarrow> list_all (\<lambda>w. CHR '' '' \<notin> set w) ws \<Longrightarrow> split (join '' '' ws) = ws"
  by (induction "'' ''" ws rule: join.induct) (simp_all add: split_word split_word_append)

text \<open>The words the source escapes are the words of the highlight's text.\<close>

lemma split_clean:
  assumes "trim t \<noteq> []"
  shows "split (trim (collapseWhiteSpace t)) = wsWords t"
proof -
  from assms have ne: "wsWords t \<noteq> []" by (simp add: trim_blank)
  have "list_all (\<lambda>w. CHR '' '' \<notin> set w) (wsWords t)"
    using wsWords_words [of t] isWhiteSpace_space by (fastforce simp: list_all_iff)
  with ne show ?thesis by (simp add: trim_collapse split_join)
qed

lemma wordsPattern_nonempty:
  "ws \<noteq> [] \<Longrightarrow> list_all (\<lambda>w. w \<noteq> []) ws \<Longrightarrow> wordsPattern ws \<noteq> []"
  by (induction ws rule: wordsPattern.induct) simp_all

lemma highlight_regex:
  assumes "trim t \<noteq> []"
  shows "parsePattern (highlightSource t) = Some (wordsPattern (wsWords t))"
    and "wordsPattern (wsWords t) \<noteq> []"
proof -
  show "parsePattern (highlightSource t) = Some (wordsPattern (wsWords t))"
    using assms by (simp add: highlightSource_def split_clean parsePattern_join)
  from assms have "wsWords t \<noteq> []" by (simp add: trim_blank)
  moreover have "list_all (\<lambda>w. w \<noteq> []) (wsWords t)"
    using wsWords_words [of t] by (simp add: list_all_iff)
  ultimately show "wordsPattern (wsWords t) \<noteq> []" by (rule wordsPattern_nonempty)
qed

lemma search_regex:
  assumes "trim q \<noteq> []"
  shows "parsePattern (escapeRegExp q) = Some (map Lit q)" and "map Lit q \<noteq> []"
proof -
  show "parsePattern (escapeRegExp q) = Some (map Lit q)"
    using parsePattern_escapeRegExp [of q "[]"] by (simp add: parsePattern_Nil)
  from assms show "map Lit q \<noteq> []" by (auto simp: trim_def)
qed

subsection \<open>Matcher: the matches and the sweep\<close>

lemma segmentText_element:
  "segmentText (element doc m) = slice doc (match_start m) (match_end m)"
  by (cases "match_kind m") (simp_all add: element_def)

lemma slice_then_rest:
  "a \<le> b \<Longrightarrow> slice doc a b @ drop b doc = drop a doc"
proof -
  assume "a \<le> b"
  then have "drop b doc = drop (b - a) (drop a doc)" by simp
  then show ?thesis by (simp add: slice_def del: drop_drop)
qed

lemma sweep_concat:
  "list_all (\<lambda>m. match_start m \<le> match_end m) ms \<Longrightarrow>
     concat (map segmentText (sweep doc lastIndex ms)) = drop lastIndex doc"
proof (induction ms arbitrary: lastIndex)
  case Nil
  then show ?case by (simp add: sliceFrom_def)
next
  case (Cons m ms)
  from Cons.prems have le: "match_start m \<le> match_end m"
    and rest: "list_all (\<lambda>m. match_start m \<le> match_end m) ms" by simp_all
  show ?case
  proof (cases "match_start m < lastIndex")
    case True
    with Cons.IH [OF rest] show ?thesis by simp
  next
    case False
    then have ge: "lastIndex \<le> match_start m" by simp
    have "concat (map segmentText (sweep doc lastIndex (m # ms)))
            = slice doc lastIndex (match_start m)
              @ slice doc (match_start m) (match_end m) @ drop (match_end m) doc"
      using False Cons.IH [OF rest, of "match_end m"]
      by (auto simp: segmentText_element slice_def)
    also have "\<dots> = slice doc lastIndex (match_start m) @ drop (match_start m) doc"
      using le by (simp add: slice_then_rest)
    also have "\<dots> = drop lastIndex doc"
      using ge by (simp add: slice_then_rest)
    finally show ?thesis .
  qed
qed

lemma searchMatches_total:
  "\<exists>found. searchMatches q doc = Some found
     \<and> list_all (\<lambda>m. match_start m < match_end m \<and> match_end m \<le> length doc
                     \<and> match_kind m = SearchMatch) found"
proof (cases "trim q = []")
  case True
  then show ?thesis by (simp add: searchMatches_def)
next
  case False
  from search_regex [OF False] execAll_total [of "map Lit q" doc 0]
  obtain spans where spans: "execAll (map Lit q) doc 0 = Some spans"
    and regex: "parsePattern (escapeRegExp q) = Some (map Lit q)" by blast
  from execAll_spans [OF spans]
  have "list_all (\<lambda>m. match_start m < match_end m \<and> match_end m \<le> length doc
                     \<and> match_kind m = SearchMatch) (map searchMatch spans)"
    by (auto simp: list_all_iff searchMatch_def)
  with False spans regex show ?thesis by (simp add: searchMatches_def)
qed

lemma highlightMatches_total:
  "\<exists>found. highlightMatches doc h index = Some found
     \<and> list_all (\<lambda>m. match_start m < match_end m \<and> match_end m \<le> length doc
                     \<and> match_kind m = NoteMatch h (index + 1)) found"
proof (cases "trim (highlight_text h) = []")
  case True
  then show ?thesis by (simp add: highlightMatches_def)
next
  case False
  from highlight_regex [OF False]
    execAll_total [of "wordsPattern (wsWords (highlight_text h))" doc 0]
  obtain spans where
    spans: "execAll (wordsPattern (wsWords (highlight_text h))) doc 0 = Some spans"
    and regex: "parsePattern (highlightSource (highlight_text h))
                  = Some (wordsPattern (wsWords (highlight_text h)))" by blast
  from execAll_spans [OF spans]
  have "list_all (\<lambda>m. match_start m < match_end m \<and> match_end m \<le> length doc
                     \<and> match_kind m = NoteMatch h (index + 1)) (map (noteMatch h index) spans)"
    by (auto simp: list_all_iff noteMatch_def)
  with False spans regex show ?thesis by (simp add: highlightMatches_def)
qed

lemma noteMatches_total:
  "\<exists>found. noteMatches doc hs index = Some found
     \<and> list_all (\<lambda>m. match_start m < match_end m \<and> match_end m \<le> length doc
                     \<and> match_kind m \<noteq> SearchMatch) found"
proof (induction hs arbitrary: index)
  case Nil
  show ?case by simp
next
  case (Cons h hs)
  from highlightMatches_total [of doc h index] obtain ms where
    ms: "highlightMatches doc h index = Some ms"
    "list_all (\<lambda>m. match_start m < match_end m \<and> match_end m \<le> length doc
                     \<and> match_kind m = NoteMatch h (index + 1)) ms" by blast
  from Cons.IH [of "Suc index"] obtain rest where
    rest: "noteMatches doc hs (Suc index) = Some rest"
    "list_all (\<lambda>m. match_start m < match_end m \<and> match_end m \<le> length doc
                     \<and> match_kind m \<noteq> SearchMatch) rest" by blast
  from ms(2) have "list_all (\<lambda>m. match_start m < match_end m \<and> match_end m \<le> length doc
                     \<and> match_kind m \<noteq> SearchMatch) ms"
    by (auto simp: list_all_iff)
  with ms(1) rest show ?case by simp
qed

lemma placed_element:
  "placed offset (element doc m # segments)
     = (match_start m = offset
        \<and> placed (offset + length (slice doc (match_start m) (match_end m))) segments)"
  by (cases "match_kind m") (auto simp: element_def)

lemma sweep_placed:
  "list_all (\<lambda>m. match_start m \<le> match_end m \<and> match_end m \<le> length doc) ms \<Longrightarrow>
     placed lastIndex (sweep doc lastIndex ms)"
proof (induction ms arbitrary: lastIndex)
  case Nil
  then show ?case by simp
next
  case (Cons m ms)
  from Cons.prems have m: "match_start m \<le> match_end m" "match_end m \<le> length doc"
    and rest: "list_all (\<lambda>m. match_start m \<le> match_end m \<and> match_end m \<le> length doc) ms"
    by simp_all
  show ?case
  proof (cases "match_start m < lastIndex")
    case True
    with Cons.IH [OF rest] show ?thesis by simp
  next
    case False
    from m have len: "match_start m + length (slice doc (match_start m) (match_end m)) = match_end m"
      by (simp add: slice_def)
    from m False have gap: "lastIndex + length (slice doc lastIndex (match_start m)) = match_start m"
      by (simp add: slice_def)
    show ?thesis
    proof (cases "lastIndex < match_start m")
      case True
      with False len gap Cons.IH [OF rest, of "match_end m"] show ?thesis
        by (simp add: placed_element)
    next
      case same: False
      with False have "match_start m = lastIndex" by simp
      with len Cons.IH [OF rest, of "match_end m"] show ?thesis
        by (simp add: placed_element)
    qed
  qed
qed
















subsection \<open>Matcher: the matches of a highlight\<close>











subsection \<open>Matcher: claims\<close>





text \<open>
  Claim C9. For every text, search term and list of highlights, \<open>HighlightText\<close>
  returns a rendering, and the texts of its segments, literal and tagged, in their
  order, concatenate to exactly the input text. The segments lie end to end from offset
  0: each tagged segment sits at the start offset of its match and the next segment
  begins where it ends, so no character is left out and none appears twice.
\<close>

theorem HighlightText_partition:
  "\<exists>segments. HighlightText q hs doc = Some segments
       \<and> concat (map segmentText segments) = doc
       \<and> placed 0 segments"
proof (cases "trim q = [] \<and> hs = []")
  case True
  then show ?thesis by (simp add: HighlightText_def)
next
  case False
  from searchMatches_total [of q doc] obtain found where
    found: "searchMatches q doc = Some found"
    "list_all (\<lambda>m. match_start m < match_end m \<and> match_end m \<le> length doc
                     \<and> match_kind m = SearchMatch) found" by blast
  from noteMatches_total [of doc hs 0] obtain anns where
    anns: "noteMatches doc hs 0 = Some anns"
    "list_all (\<lambda>m. match_start m < match_end m \<and> match_end m \<le> length doc
                     \<and> match_kind m \<noteq> SearchMatch) anns" by blast
  from found(2) anns(2)
  have spans: "list_all (\<lambda>m. match_start m \<le> match_end m \<and> match_end m \<le> length doc)
          (sort_key match_start (found @ anns))"
    by (auto simp: list_all_iff)
  then have "list_all (\<lambda>m. match_start m \<le> match_end m) (sort_key match_start (found @ anns))"
    by (auto simp: list_all_iff)
  from sweep_concat [OF this, of doc 0] sweep_placed [OF spans, of 0] False found(1) anns(1)
  show ?thesis by (simp add: HighlightText_def)
qed

theorem HighlightText_partition_witness:
  "HighlightText ''quick'' [] ''The quick brown fox''
     = Some [Literal ''The '', SearchMark 4 ''quick'', Literal '' brown fox'']
   \<and> concat (map segmentText [Literal ''The '', SearchMark 4 ''quick'', Literal '' brown fox''])
     = ''The quick brown fox''"
proof -
  have run: "HighlightText ''quick'' [] ''The quick brown fox''
     = Some [Literal ''The '', SearchMark 4 ''quick'', Literal '' brown fox'']"
    by code_simp
  from HighlightText_partition [of "''quick''" "[]" "''The quick brown fox''"]
  obtain segments where "HighlightText ''quick'' [] ''The quick brown fox'' = Some segments"
    and "concat (map segmentText segments) = ''The quick brown fox''"
    by blast
  with run show ?thesis by simp
qed

end
